theory Spec2Isabelle
  imports Main "HOL-Library.Sublist"
begin

section \<open>Strings as the script uses them\<close>

text \<open>
  Names and export lines are Python \<open>str\<close> values, modelled as \<open>string\<close>: a list of
  characters, one \<open>char\<close> per code point, for the code points 0 to 255 (ASCII and
  Latin-1); text with code points above 255 is outside the model.  The script uses four
  string operations: \<open>s.strip()\<close>, \<open>s.lower()\<close>, \<open>a in b\<close> and \<open>s.find(a)\<close>.  On the
  code points 0 to 255, \<open>str.isspace\<close> holds for 9 to 13, 28 to 32, 133 and 160, and
  \<open>str.lower\<close> changes the capital letters only: 65 to 90, and 192 to 222 without the
  multiplication sign 215.
\<close>

definition is_space :: "char \<Rightarrow> bool" where
  \<comment> \<open>the characters for which \<open>str.isspace\<close> holds, among them NEL (133) and the
      no-break space (160)\<close>
  "is_space c \<longleftrightarrow>
     (let n = (of_char c :: nat)
      in (9 \<le> n \<and> n \<le> 13) \<or> (28 \<le> n \<and> n \<le> 32) \<or> n = 133 \<or> n = 160)"

definition py_strip :: "string \<Rightarrow> string" where
  \<comment> \<open>\<open>s.strip()\<close>: leading and trailing whitespace removed\<close>
  "py_strip s = rev (dropWhile is_space (rev (dropWhile is_space s)))"

definition lower_char :: "char \<Rightarrow> char" where
  \<comment> \<open>the capital letters (65 .. 90, and 192 .. 222 without 215) move up by 32, which sets
      bit 5; every other character stays\<close>
  "lower_char c =
     (let n = (of_char c :: nat)
      in if (65 \<le> n \<and> n \<le> 90) \<or> (192 \<le> n \<and> n \<le> 222 \<and> n \<noteq> 215)
         then Char (digit0 c) (digit1 c) (digit2 c) (digit3 c) (digit4 c) True (digit6 c) (digit7 c)
         else c)"

definition py_lower :: "string \<Rightarrow> string" where
  \<comment> \<open>\<open>s.lower()\<close>\<close>
  "py_lower s = map lower_char s"

text \<open>\<open>a in b\<close> on strings is \<^const>\<open>sublist\<close> \<open>a b\<close>: \<open>a\<close> occurs contiguously in \<open>b\<close>.\<close>

fun py_find :: "string \<Rightarrow> string \<Rightarrow> int" where
  \<comment> \<open>\<open>s.find(a)\<close>: offset of the first occurrence of \<open>a\<close> in \<open>s\<close>, \<open>-1\<close> when there is none\<close>
  "py_find a [] = (if a = [] then 0 else - 1)"
| "py_find a (c # cs) =
     (if prefix a (c # cs) then 0
      else (let r = py_find a cs in if r < 0 then - 1 else r + 1))"

section \<open>Orientation of an observed score: \<open>map_scores_for_excel\<close>\<close>

text \<open>
  The function returns a pair of scores or Python's \<open>None\<close>; the result type is an
  option.  Scores are the integers parsed from the match page.
\<close>

definition map_scores_for_excel ::
  "string \<Rightarrow> string \<Rightarrow> string \<Rightarrow> string \<Rightarrow> int \<Rightarrow> int \<Rightarrow> bool \<Rightarrow> (int \<times> int) option" where
  "map_scores_for_excel player opponent left_name right_name left_score right_score switched_flag =
     (let ln = py_lower (py_strip left_name);
          rn = py_lower (py_strip right_name);
          pn = py_lower (py_strip player);
          on = py_lower (py_strip opponent)
      in if switched_flag then Some (right_score, left_score)
         else if ln = pn \<and> rn = on then Some (left_score, right_score)
         else if ln = on \<and> rn = pn then Some (right_score, left_score)
         else if sublist pn ln \<or> sublist pn rn \<or> sublist on ln \<or> sublist on rn then
           (if sublist pn ln then Some (left_score, right_score)
            else if sublist pn rn then Some (right_score, left_score)
            else None)
         else None)"

section \<open>Sheets, lists and dictionaries\<close>

text \<open>
  A worksheet cell read through xlwings is empty (\<open>None\<close>), a number or a text.  The only
  test the script makes on a score cell is \<open>== 11\<close>; the scores it writes are integers.
  A sheet maps (row, column), both counted from 1, to the cell's value.
\<close>

datatype cell = Empty | Num int | Txt string

type_synonym sheet = "nat \<times> nat \<Rightarrow> cell"

fun index_of :: "'a list \<Rightarrow> 'a \<Rightarrow> nat option" where
  \<comment> \<open>\<open>xs.index(x)\<close>; \<open>None\<close> stands for the \<open>ValueError\<close>\<close>
  "index_of [] x = None"
| "index_of (y # ys) x = (if y = x then Some 0 else map_option Suc (index_of ys x))"

text \<open>
  The dictionaries the script iterates over (\<open>match_id_to_excel\<close>, \<open>finished_by_id\<close>) are
  association lists in insertion order, as Python keeps them: assigning to a key that is
  present keeps its place, a new key goes to the end.  The dictionaries that are only
  looked up are maps.
\<close>

fun dict_set :: "('k \<times> 'v) list \<Rightarrow> 'k \<Rightarrow> 'v \<Rightarrow> ('k \<times> 'v) list" where
  "dict_set [] k v = [(k, v)]"
| "dict_set ((k', v') # d) k v = (if k' = k then (k, v) # d else (k', v') # dict_set d k v)"

definition falsy :: "string option \<Rightarrow> bool" where
  \<comment> \<open>\<open>not html\<close> for a value that is \<open>None\<close> or a string\<close>
  "falsy html \<longleftrightarrow> html = None \<or> html = Some []"

definition col_start :: nat where
  "col_start = 2"

definition mid_threshold :: int where
  "mid_threshold = 24"

definition read_players_in_matches :: "string list \<Rightarrow> string list" where
  \<comment> \<open>lines 560-567: the texts of \<open>A4, A5, ...\<close> of sheet Matches, read until the first empty
      cell, each one stripped\<close>
  "read_players_in_matches col_a = map py_strip (takeWhile (\<lambda>nm. nm \<noteq> []) col_a)"

definition col_index_links :: "string list \<Rightarrow> string \<rightharpoonup> nat" where
  \<comment> \<open>\<open>{name: 2 + i for i, name in enumerate(col_opponents_links)}\<close>: the last column wins\<close>
  "col_index_links cols = map_of (rev (zip cols [2 ..< 2 + length cols]))"

section \<open>The run's inputs and its state\<close>

text \<open>
  What a run is given: the answers of the DailyGammon site, the two scraping functions
  whose parsing is done by BeautifulSoup, the rosters read from the workbook.  The site is
  asked through \<open>fetch_list_html\<close>; \<open>dailygammon n match_id\<close> is its answer to the request
  made after \<open>n\<close> earlier ones (\<open>None\<close> when the request fails or asks for a login).
\<close>

record env =
  dailygammon :: "nat \<Rightarrow> int \<Rightarrow> string option"
  extract_latest_score :: "string \<Rightarrow> string list \<Rightarrow> (string \<times> string \<times> int \<times> int) option"
  get_player_matches :: "string \<Rightarrow> (string \<times> string \<times> int) list"
  players :: "string list"
  player_ids :: "string \<rightharpoonup> string"
  row_players_links :: "string list"
  col_opponents_links :: "string list"
  players_in_matches :: "string list"

text \<open>
  The module-level variables the steps change.  \<open>ws_links\<close> holds the match id of each cell
  of sheet Links (\<open>None\<close> for an empty cell), \<open>ws_matches\<close> the cells of sheet Matches.
  \<open>requests\<close> is not a variable of the script: it lists, in order, the match ids that
  \<open>fetch_list_html\<close> has asked the site for.
\<close>

record state =
  matches :: "string \<times> string \<rightharpoonup> int"
  matches_by_hand :: "string \<times> string \<rightharpoonup> int \<times> bool"
  match_id_to_excel :: "(int \<times> string \<times> string \<times> bool) list"
  html_cache :: "int \<rightharpoonup> string option"
  finished_by_id :: "(int \<times> string) list"
  ws_links :: "nat \<times> nat \<Rightarrow> int option"
  ws_matches :: sheet
  requests :: "int list"

definition fetch_list_html :: "env \<Rightarrow> state \<Rightarrow> int \<Rightarrow> string option \<times> state" where
  "fetch_list_html e st match_id =
     (dailygammon e (length (requests st)) match_id, st\<lparr>requests := requests st @ [match_id]\<rparr>)"

section \<open>Step 1: the links already in the workbook\<close>

text \<open>
  Lines 398-432, for one cell of sheet Links that holds the id \<open>match_id\<close>.  The page is
  requested only when the id is not a key of \<open>html_cache\<close>.
\<close>

definition register_plain :: "state \<Rightarrow> string \<Rightarrow> string \<Rightarrow> int \<Rightarrow> state" where
  \<comment> \<open>\<open>matches[(player_name, opp)] = match_id; match_id_to_excel[match_id] = (player_name, opp, False)\<close>\<close>
  "register_plain st player_name opp match_id =
     st\<lparr>matches := (matches st)((player_name, opp) \<mapsto> match_id),
        match_id_to_excel := dict_set (match_id_to_excel st) match_id (player_name, opp, False)\<rparr>"

definition step1_cell :: "env \<Rightarrow> state \<Rightarrow> string \<Rightarrow> string \<Rightarrow> int \<Rightarrow> state" where
  "step1_cell e st player_name opp match_id =
     (let (html, st1) =
            (case html_cache st match_id of
               None \<Rightarrow>
                 (let (h, st') = fetch_list_html e st match_id
                  in (h, st'\<lparr>html_cache := (html_cache st')(match_id \<mapsto> h)\<rparr>))
             | Some h \<Rightarrow> (h, st))
      in case html of
           None \<Rightarrow> register_plain st1 player_name opp match_id
         | Some page \<Rightarrow>
             if page = [] then register_plain st1 player_name opp match_id
             else
               (case extract_latest_score e page [player_name, opp] of
                  None \<Rightarrow> register_plain st1 player_name opp match_id
                | Some (left_name, right_name, _, _) \<Rightarrow>
                    (let ln = py_lower left_name; rn = py_lower right_name;
                         pn = py_lower player_name; on = py_lower opp
                     in if ln = pn \<and> rn = on then register_plain st1 player_name opp match_id
                        else if ln = on \<and> rn = pn then
                          st1\<lparr>matches_by_hand := (matches_by_hand st1)((player_name, opp) \<mapsto> (match_id, True)),
                              match_id_to_excel := dict_set (match_id_to_excel st1) match_id (player_name, opp, True)\<rparr>
                        else register_plain st1 player_name opp match_id)))"

text \<open>
  Lines 390-397: the two loops over the rows and columns of sheet Links.  A cell is skipped
  on the diagonal and when its value is falsy (empty, or the number 0).
\<close>

definition step1_visit :: "env \<Rightarrow> nat \<Rightarrow> string \<Rightarrow> string \<Rightarrow> state \<Rightarrow> state" where
  "step1_visit e i player_name opp st =
     (if player_name = opp then st
      else case col_index_links (col_opponents_links e) opp of
             None \<Rightarrow> st
           | Some c \<Rightarrow>
               (case ws_links st (i, c) of
                  None \<Rightarrow> st
                | Some val \<Rightarrow> if val = 0 then st else step1_cell e st player_name opp val))"

definition step1 :: "env \<Rightarrow> state \<Rightarrow> state" where
  "step1 e st =
     fold (\<lambda>(i, player_name) s. fold (step1_visit e i player_name) (col_opponents_links e) s)
          (zip [2 ..< 2 + length (row_players_links e)] (row_players_links e)) st"

section \<open>Step 2: the missing match ids\<close>

text \<open>
  Lines 459-487, for one entry \<open>(opponent_name, opponent_id, match_id)\<close> of the player's
  matches on the site.  The registry entry of the id is assigned whatever it held before;
  only the switched flag of an earlier entry is carried over.  The id is then stored in
  sheet Links when the cell of the pair is empty.
\<close>

definition step2_entry :: "env \<Rightarrow> string \<Rightarrow> state \<Rightarrow> string \<times> string \<times> int \<Rightarrow> state" where
  "step2_entry e player st entry =
     (case entry of (opponent_name, opponent_id, mid_int) \<Rightarrow>
        (let key = (player, opponent_name)
         in if matches st key \<noteq> None \<or> matches_by_hand st key \<noteq> None then st
            else
              (let switched_flag =
                     (case map_of (match_id_to_excel st) mid_int of
                        None \<Rightarrow> False
                      | Some (_, _, flag) \<Rightarrow> flag);
                   st1 = st\<lparr>matches := (matches st)(key \<mapsto> mid_int),
                            match_id_to_excel :=
                              dict_set (match_id_to_excel st) mid_int (player, opponent_name, switched_flag)\<rparr>
               in case index_of (row_players_links e) player of
                    None \<Rightarrow> st1
                  | Some r \<Rightarrow>
                      (let row_idx = r + 2
                       in case col_index_links (col_opponents_links e) opponent_name of
                            None \<Rightarrow> st1
                          | Some c \<Rightarrow>
                              if opponent_name = player then st1
                              else if ws_links st1 (row_idx, c) = None \<or> ws_links st1 (row_idx, c) = Some 0
                              then st1\<lparr>ws_links := (ws_links st1)((row_idx, c) := Some mid_int)\<rparr>
                              else st1))))"

text \<open>Lines 450-458: the loop over the players; a player without an id is skipped.\<close>

definition step2_player :: "env \<Rightarrow> string \<Rightarrow> state \<Rightarrow> state" where
  "step2_player e player st =
     (case player_ids e player of
        None \<Rightarrow> st
      | Some pid \<Rightarrow>
          if pid = [] then st
          else
            (let missing = filter (\<lambda>opp. opp \<noteq> player \<and> matches st (player, opp) = None
                                        \<and> matches_by_hand st (player, opp) = None) (players e)
             in if missing = [] then st
                else fold (\<lambda>entry s. step2_entry e player s entry) (get_player_matches e pid) st))"

definition step2 :: "env \<Rightarrow> state \<Rightarrow> state" where
  "step2 e st = fold (step2_player e) (players e) st"

section \<open>Step 3: the winner of a finished match\<close>

text \<open>
  Lines 536-548.  \<open>detect_winner\<close> is the value of the variable \<open>winner\<close> after the loop over
  the lines of the export; the loop stops at the first finishing line.
\<close>

fun detect_winner :: "string \<Rightarrow> string \<Rightarrow> string list \<Rightarrow> string option" where
  "detect_winner player opponent_name [] = None"
| "detect_winner player opponent_name (line # text_lines) =
     (if sublist ''and the match'' line \<and> sublist ''Wins'' line
      then (let pos = py_find ''Wins'' line
            in Some (if pos < mid_threshold then player else opponent_name))
      else detect_winner player opponent_name text_lines)"

definition step3_row :: "string \<Rightarrow> state \<Rightarrow> int \<Rightarrow> string \<Rightarrow> string list \<Rightarrow> state" where
  \<comment> \<open>\<open>if winner: finished_by_id[match_id] = winner\<close>\<close>
  "step3_row player st match_id opponent_name text_lines =
     (case detect_winner player opponent_name text_lines of
        None \<Rightarrow> st
      | Some winner \<Rightarrow>
          if winner = [] then st
          else st\<lparr>finished_by_id := dict_set (finished_by_id st) match_id winner\<rparr>)"

section \<open>Phase 1: the intermediate scores\<close>

text \<open>
  \<open>write_score_to_excel\<close>, lines 576-596, returns its Boolean and the sheet it leaves.  The
  parameter \<open>switched_flag\<close> is not used by the body.
\<close>

definition write_score_to_excel ::
  "string list \<Rightarrow> sheet \<Rightarrow> string \<Rightarrow> string \<Rightarrow> int \<Rightarrow> int \<Rightarrow> bool \<Rightarrow> bool \<times> sheet" where
  "write_score_to_excel pim ws excel_player excel_opponent player_score opponent_score switched_flag =
     (case index_of pim excel_player of
        None \<Rightarrow> (False, ws)
      | Some i \<Rightarrow>
          (case index_of pim excel_opponent of
             None \<Rightarrow> (False, ws)
           | Some c_base \<Rightarrow>
               (let r_idx = i + 4;
                    c_left = col_start + c_base * 2;
                    c_right = c_left + 1;
                    left_cell_val = ws (r_idx, c_left);
                    right_cell_val = ws (r_idx, c_right)
                in if left_cell_val = Num 11 \<or> right_cell_val = Num 11 then (False, ws)
                   else (True, ws((r_idx, c_left) := Num player_score,
                                  (r_idx, c_right) := Num opponent_score)))))"

text \<open>
  Lines 601-618, for one item of \<open>match_id_to_excel\<close>.  The page is requested again
  whenever the cached value is falsy: absent, \<open>None\<close> or the empty string.
\<close>

definition phase1_body :: "env \<Rightarrow> state \<Rightarrow> int \<times> string \<times> string \<times> bool \<Rightarrow> state" where
  "phase1_body e st item =
     (case item of (match_id, excel_player, excel_opponent, switched_flag) \<Rightarrow>
        (let cached = (case html_cache st match_id of None \<Rightarrow> None | Some h \<Rightarrow> h);
             (html, st1) =
               (if falsy cached
                then (let (h, st') = fetch_list_html e st match_id
                      in (h, st'\<lparr>html_cache := (html_cache st')(match_id \<mapsto> h)\<rparr>))
                else (cached, st))
         in case html of
              None \<Rightarrow> st1
            | Some page \<Rightarrow>
                if page = [] then st1
                else
                  (case extract_latest_score e page (players_in_matches e) of
                     None \<Rightarrow> st1
                   | Some (left_name, right_name, left_score, right_score) \<Rightarrow>
                       (case map_scores_for_excel excel_player excel_opponent left_name right_name
                               left_score right_score switched_flag of
                          None \<Rightarrow> st1
                        | Some (excel_player_score, excel_opponent_score) \<Rightarrow>
                            st1\<lparr>ws_matches :=
                                  snd (write_score_to_excel (players_in_matches e) (ws_matches st1)
                                         excel_player excel_opponent
                                         excel_player_score excel_opponent_score switched_flag)\<rparr>))))"

definition phase1 :: "env \<Rightarrow> state \<Rightarrow> state" where
  \<comment> \<open>the loop runs over \<open>list(match_id_to_excel.items())\<close>, taken before the first pass\<close>
  "phase1 e st = fold (\<lambda>item s. phase1_body e s item) (match_id_to_excel st) st"

section \<open>Phase 2: the final results\<close>

text \<open>Lines 633-657, for one item \<open>(match_id, winner_name)\<close> of \<open>finished_by_id\<close>.\<close>

definition phase2_body :: "env \<Rightarrow> state \<Rightarrow> int \<times> string \<Rightarrow> state" where
  "phase2_body e st item =
     (case item of (match_id, winner_name) \<Rightarrow>
        (case map_of (match_id_to_excel st) match_id of
           None \<Rightarrow> st
         | Some (excel_player, excel_opponent, switched_flag) \<Rightarrow>
             (case index_of (players_in_matches e) excel_player of
                None \<Rightarrow> st
              | Some i \<Rightarrow>
                  (case index_of (players_in_matches e) excel_opponent of
                     None \<Rightarrow> st
                   | Some c_base \<Rightarrow>
                       (let r_idx = i + 4;
                            c_left = col_start + c_base * 2;
                            c_right = c_left + 1;
                            winner_lower = py_lower (py_strip winner_name)
                        in if switched_flag then
                             (if winner_lower = py_lower excel_player
                              then st\<lparr>ws_matches := (ws_matches st)((r_idx, c_right) := Num 11)\<rparr>
                              else if winner_lower = py_lower excel_opponent
                              then st\<lparr>ws_matches := (ws_matches st)((r_idx, c_left) := Num 11)\<rparr>
                              else st)
                           else
                             (if winner_lower = py_lower excel_player
                              then st\<lparr>ws_matches := (ws_matches st)((r_idx, c_left) := Num 11)\<rparr>
                              else if winner_lower = py_lower excel_opponent
                              then st\<lparr>ws_matches := (ws_matches st)((r_idx, c_right) := Num 11)\<rparr>
                              else st))))))"

definition phase2 :: "env \<Rightarrow> state \<Rightarrow> state" where
  "phase2 e st = fold (\<lambda>item s. phase2_body e s item) (finished_by_id st) st"

section \<open>Notions used in the statements and proofs\<close>

definition page_used :: "env \<Rightarrow> state \<Rightarrow> int \<Rightarrow> string option" where
  \<comment> \<open>the value of \<open>html\<close> at line 605 of the Phase 1 loop body: the cached page unless that
      is falsy, otherwise the site's answer to the request made at that moment\<close>
  "page_used e st match_id =
     (let cached = (case html_cache st match_id of None \<Rightarrow> None | Some h \<Rightarrow> h)
      in if falsy cached then dailygammon e (length (requests st)) match_id else cached)"

text \<open>
  The effect of one pass of the Phase 1 loop on sheet Matches, separated from the rest of
  the state: \<open>planned_write\<close> is the write the pass attempts for the page it works on
  (row index, column index, the two scores), if any, and \<open>guarded_write\<close> carries it out
  behind the test for 11.  \<open>pair_at\<close> reads the two cells of a target pair, and \<open>pair_step\<close>
  is what an attempted write does to the pair of a given target.
\<close>

definition planned_write ::
  "env \<Rightarrow> string option \<Rightarrow> string \<times> string \<times> bool \<Rightarrow> (nat \<times> nat \<times> int \<times> int) option" where
  "planned_write e html entry =
     (case entry of (excel_player, excel_opponent, switched_flag) \<Rightarrow>
        (case html of
           None \<Rightarrow> None
         | Some page \<Rightarrow>
             if page = [] then None
             else
               (case extract_latest_score e page (players_in_matches e) of
                  None \<Rightarrow> None
                | Some (left_name, right_name, left_score, right_score) \<Rightarrow>
                    (case map_scores_for_excel excel_player excel_opponent left_name right_name
                            left_score right_score switched_flag of
                       None \<Rightarrow> None
                     | Some (a, b) \<Rightarrow>
                         (case index_of (players_in_matches e) excel_player of
                            None \<Rightarrow> None
                          | Some i \<Rightarrow>
                              (case index_of (players_in_matches e) excel_opponent of
                                 None \<Rightarrow> None
                               | Some c_base \<Rightarrow> Some (i, c_base, a, b)))))))"

definition guarded_write :: "nat \<times> nat \<times> int \<times> int \<Rightarrow> sheet \<Rightarrow> sheet" where
  "guarded_write w ws =
     (case w of (i, c_base, a, b) \<Rightarrow>
        if ws (i + 4, col_start + c_base * 2) = Num 11 \<or> ws (i + 4, col_start + c_base * 2 + 1) = Num 11
        then ws
        else ws((i + 4, col_start + c_base * 2) := Num a, (i + 4, col_start + c_base * 2 + 1) := Num b))"

definition apply_planned :: "(nat \<times> nat \<times> int \<times> int) option \<Rightarrow> sheet \<Rightarrow> sheet" where
  "apply_planned wo ws = (case wo of None \<Rightarrow> ws | Some w \<Rightarrow> guarded_write w ws)"

definition pair_at :: "sheet \<Rightarrow> nat \<times> nat \<Rightarrow> cell \<times> cell" where
  "pair_at ws t = (ws (fst t + 4, col_start + snd t * 2), ws (fst t + 4, col_start + snd t * 2 + 1))"

definition blocked :: "cell \<times> cell \<Rightarrow> bool" where
  "blocked v \<longleftrightarrow> fst v = Num 11 \<or> snd v = Num 11"

definition pair_step :: "nat \<times> nat \<Rightarrow> (nat \<times> nat \<times> int \<times> int) option \<Rightarrow> cell \<times> cell \<Rightarrow> cell \<times> cell" where
  "pair_step t wo v =
     (case wo of
        None \<Rightarrow> v
      | Some (i, c_base, a, b) \<Rightarrow> if (i, c_base) = t \<and> \<not> blocked v then (Num a, Num b) else v)"

section \<open>A small league for the examples\<close>

text \<open>
  Two players, Alice (user id 1) and Bob (user id 2).  Sheet Links holds the match id 100
  in the cell of row Alice and column Bob, and the site lists that match on Bob's page
  with Alice as the opponent.  The site's answers and the score extractor are left open.
\<close>

definition demo_env ::
  "(nat \<Rightarrow> int \<Rightarrow> string option) \<Rightarrow> (string \<Rightarrow> (string \<times> string \<times> int \<times> int) option) \<Rightarrow> env" where
  "demo_env site extract =
     \<lparr>dailygammon = site,
      extract_latest_score = (\<lambda>page names. extract page),
      get_player_matches = (\<lambda>pid. if pid = ''2'' then [(''Alice'', ''1'', 100)] else []),
      players = [''Alice'', ''Bob''],
      player_ids = [''Alice'' \<mapsto> ''1'', ''Bob'' \<mapsto> ''2''],
      row_players_links = [''Alice'', ''Bob''],
      col_opponents_links = [''Alice'', ''Bob''],
      players_in_matches = [''Alice'', ''Bob'']\<rparr>"

definition demo_state :: state where
  "demo_state =
     \<lparr>matches = Map.empty,
      matches_by_hand = Map.empty,
      match_id_to_excel = [],
      html_cache = Map.empty,
      finished_by_id = [],
      ws_links = (\<lambda>_. None)((2, 3) := Some 100),
      ws_matches = (\<lambda>_. Empty),
      requests = []\<rparr>"

section \<open>Facts about the string operations\<close>

text \<open>A capital letter of Latin-1 is lowered, the no-break space and NEL are stripped.\<close>

lemma latin1_examples:
  "py_lower [CHR 0xC9, CHR ''R'', CHR ''I'', CHR ''C''] = [CHR 0xE9, CHR ''r'', CHR ''i'', CHR ''c'']
   \<and> py_lower [CHR 0xD7, CHR 0xDF] = [CHR 0xD7, CHR 0xDF]
   \<and> py_strip [CHR 0xA0, CHR ''B'', CHR ''o'', CHR ''b'', CHR 0x85, CHR '' ''] = ''Bob''"
  by code_simp

lemma is_space_lower_char: "is_space (lower_char c) = is_space c"
  by (cases c) (auto simp: is_space_def lower_char_def Let_def)

lemma py_strip_py_lower: "py_strip (py_lower s) = py_lower (py_strip s)"
proof -
  have comp: "is_space \<circ> lower_char = is_space"
    by (rule ext) (simp add: is_space_lower_char)
  have dw: "dropWhile is_space (map lower_char xs) = map lower_char (dropWhile is_space xs)" for xs
    by (simp add: dropWhile_map comp)
  show ?thesis
    by (simp add: py_strip_def py_lower_def dw rev_map)
qed

lemma py_lower_strip_cong:
  "py_lower a = py_lower b \<Longrightarrow> py_lower (py_strip a) = py_lower (py_strip b)"
  by (metis py_strip_py_lower)

section \<open>The resolver\<close>

lemma map_scores_aligned:
  "py_lower (py_strip left_name) = py_lower (py_strip player) \<Longrightarrow>
   py_lower (py_strip right_name) = py_lower (py_strip opponent) \<Longrightarrow>
   map_scores_for_excel player opponent left_name right_name left_score right_score False
     = Some (left_score, right_score)"
  unfolding map_scores_for_excel_def Let_def by simp

lemma map_scores_swapped:
  "py_lower (py_strip left_name) = py_lower (py_strip opponent) \<Longrightarrow>
   py_lower (py_strip right_name) = py_lower (py_strip player) \<Longrightarrow>
   py_lower (py_strip player) \<noteq> py_lower (py_strip opponent) \<Longrightarrow>
   map_scores_for_excel player opponent left_name right_name left_score right_score False
     = Some (right_score, left_score)"
  unfolding map_scores_for_excel_def Let_def by simp

text \<open>
  Claim C3.  With the switched flag set, \<open>map_scores_for_excel\<close> returns
  (right score, left score) whatever the four names are.
\<close>

theorem switched_flag_precedence:
  "map_scores_for_excel player opponent left_name right_name left_score right_score True
     = Some (right_score, left_score)"
  by (simp add: map_scores_for_excel_def)

text \<open>Scenario B of the specification, as an instance of the theorem.\<close>

theorem switched_flag_precedence_witness:
  "map_scores_for_excel ''Alice'' ''Bob'' ''Bob'' ''Alice'' 3 5 True = Some (5, 3)"
  by (rule switched_flag_precedence)

text \<open>
  Claim C2.  Without the switched flag: when the left name equals the player and the
  right name the opponent, up to case, the result is (left score, right score); when the
  left name equals the opponent and the right name the player, up to case, the result is
  (right score, left score).  Player and opponent are two participants: the second
  statement is for names that differ once stripped and lowered, the first holds for all
  names.  Scenario A gives \<open>(5, 3)\<close>.
\<close>

theorem exact_name_orientation:
  "(py_lower left_name = py_lower player \<and> py_lower right_name = py_lower opponent \<longrightarrow>
      map_scores_for_excel player opponent left_name right_name left_score right_score False
        = Some (left_score, right_score))
   \<and> (py_lower left_name = py_lower opponent \<and> py_lower right_name = py_lower player
        \<and> py_lower (py_strip player) \<noteq> py_lower (py_strip opponent) \<longrightarrow>
      map_scores_for_excel player opponent left_name right_name left_score right_score False
        = Some (right_score, left_score))
   \<and> map_scores_for_excel ''Alice'' ''Bob'' ''Bob'' ''Alice'' 3 5 False = Some (5, 3)"
proof (intro conjI impI)
  assume h: "py_lower left_name = py_lower player \<and> py_lower right_name = py_lower opponent"
  show "map_scores_for_excel player opponent left_name right_name left_score right_score False
          = Some (left_score, right_score)"
    using h by (intro map_scores_aligned py_lower_strip_cong) simp_all
next
  assume h: "py_lower left_name = py_lower opponent \<and> py_lower right_name = py_lower player
      \<and> py_lower (py_strip player) \<noteq> py_lower (py_strip opponent)"
  show "map_scores_for_excel player opponent left_name right_name left_score right_score False
          = Some (right_score, left_score)"
  proof (rule map_scores_swapped)
    show "py_lower (py_strip left_name) = py_lower (py_strip opponent)"
      using h by (intro py_lower_strip_cong) simp
    show "py_lower (py_strip right_name) = py_lower (py_strip player)"
      using h by (intro py_lower_strip_cong) simp
    show "py_lower (py_strip player) \<noteq> py_lower (py_strip opponent)"
      using h by simp
  qed
next
  show "map_scores_for_excel ''Alice'' ''Bob'' ''Bob'' ''Alice'' 3 5 False = Some (5, 3)"
    by code_simp
qed

theorem exact_name_orientation_witness:
  "map_scores_for_excel ''Alice'' ''Bob'' ''ALICE'' ''bob'' 7 4 False = Some (7, 4)
   \<and> map_scores_for_excel ''Alice'' ''Bob'' ''BOB'' ''alice'' 7 4 False = Some (4, 7)"
proof -
  have a: "py_lower ''ALICE'' = py_lower ''Alice'' \<and> py_lower ''bob'' = py_lower ''Bob''"
    by code_simp
  have b: "py_lower ''BOB'' = py_lower ''Bob'' \<and> py_lower ''alice'' = py_lower ''Alice''
           \<and> py_lower (py_strip ''Alice'') \<noteq> py_lower (py_strip ''Bob'')"
    by code_simp
  note t1 = exact_name_orientation [where player = "''Alice''" and opponent = "''Bob''"
      and left_name = "''ALICE''" and right_name = "''bob''" and left_score = 7 and right_score = 4]
  note t2 = exact_name_orientation [where player = "''Alice''" and opponent = "''Bob''"
      and left_name = "''BOB''" and right_name = "''alice''" and left_score = 7 and right_score = 4]
  have "map_scores_for_excel ''Alice'' ''Bob'' ''ALICE'' ''bob'' 7 4 False = Some (7, 4)"
    by (rule mp [OF conjunct1 [OF t1] a])
  moreover have "map_scores_for_excel ''Alice'' ''Bob'' ''BOB'' ''alice'' 7 4 False = Some (4, 7)"
    by (rule mp [OF conjunct1 [OF conjunct2 [OF t2]] b])
  ultimately show ?thesis by (rule conjI)
qed

lemma map_scores_fallback:
  assumes "\<not> (py_lower (py_strip left_name) = py_lower (py_strip player)
        \<and> py_lower (py_strip right_name) = py_lower (py_strip opponent))"
    and "\<not> (py_lower (py_strip left_name) = py_lower (py_strip opponent)
        \<and> py_lower (py_strip right_name) = py_lower (py_strip player))"
  shows "map_scores_for_excel player opponent left_name right_name left_score right_score False
     = (if sublist (py_lower (py_strip player)) (py_lower (py_strip left_name))
        then Some (left_score, right_score)
        else if sublist (py_lower (py_strip player)) (py_lower (py_strip right_name))
        then Some (right_score, left_score)
        else None)"
proof -
  have "(if A then x else if B then y
         else if P \<or> Q \<or> R \<or> S then (if P then x else if Q then y else z) else z)
        = (if P then x else if Q then y else z)"
    if "\<not> A" "\<not> B" for A B P Q R S and x y z :: "(int \<times> int) option"
    using that by simp
  from this [OF assms] show ?thesis
    unfolding map_scores_for_excel_def Let_def if_False .
qed

lemma map_scores_player_absent:
  "\<not> sublist (py_lower (py_strip player)) (py_lower (py_strip left_name)) \<Longrightarrow>
   \<not> sublist (py_lower (py_strip player)) (py_lower (py_strip right_name)) \<Longrightarrow>
   map_scores_for_excel player opponent left_name right_name left_score right_score False = None"
  unfolding map_scores_for_excel_def Let_def by auto

section \<open>The intermediate-score phase\<close>

lemma phase1_body_ws:
  "ws_matches (phase1_body e st (match_id, excel_player, excel_opponent, switched_flag)) =
     (case page_used e st match_id of
        None \<Rightarrow> ws_matches st
      | Some page \<Rightarrow>
          if page = [] then ws_matches st
          else
            (case extract_latest_score e page (players_in_matches e) of
               None \<Rightarrow> ws_matches st
             | Some (left_name, right_name, left_score, right_score) \<Rightarrow>
                 (case map_scores_for_excel excel_player excel_opponent left_name right_name
                         left_score right_score switched_flag of
                    None \<Rightarrow> ws_matches st
                  | Some (a, b) \<Rightarrow>
                      snd (write_score_to_excel (players_in_matches e) (ws_matches st)
                             excel_player excel_opponent a b switched_flag))))"
  unfolding phase1_body_def page_used_def fetch_list_html_def Let_def
  by (simp split: option.splits prod.splits)

lemma phase1_body_skip:
  "page_used e st match_id = Some page \<Longrightarrow>
   extract_latest_score e page (players_in_matches e) = Some (left_name, right_name, left_score, right_score) \<Longrightarrow>
   map_scores_for_excel excel_player excel_opponent left_name right_name left_score right_score switched_flag = None \<Longrightarrow>
   ws_matches (phase1_body e st (match_id, excel_player, excel_opponent, switched_flag)) = ws_matches st"
  by (simp add: phase1_body_ws)

lemma write_score_keeps_11:
  "ws x = Num 11 \<Longrightarrow>
   snd (write_score_to_excel pim ws excel_player excel_opponent player_score opponent_score switched_flag) x = Num 11"
  unfolding write_score_to_excel_def Let_def
  by (auto split: option.splits)

lemma phase1_body_keeps_11:
  "ws_matches st x = Num 11 \<Longrightarrow> ws_matches (phase1_body e st item) x = Num 11"
  by (cases item) (auto simp: phase1_body_ws write_score_keeps_11 split: option.splits)

lemma phase1_loop_keeps_11:
  "ws_matches st x = Num 11 \<Longrightarrow>
   ws_matches (fold (\<lambda>item s. phase1_body e s item) items st) x = Num 11"
  by (induction items arbitrary: st) (simp_all add: phase1_body_keeps_11)

text \<open>
  Claim C1.  When \<open>write_score_to_excel\<close> finds the two names and either cell of the
  target pair holds 11, it returns \<open>False\<close> and leaves the sheet as it is.  Hence a call of
  \<open>write_score_to_excel\<close>, and the whole Phase 1 loop, leave every cell that holds 11 at 11.
\<close>

theorem finality_guard:
  "(index_of pim excel_player = Some i \<and> index_of pim excel_opponent = Some c_base
      \<and> (ws (i + 4, col_start + c_base * 2) = Num 11 \<or> ws (i + 4, col_start + c_base * 2 + 1) = Num 11) \<longrightarrow>
      write_score_to_excel pim ws excel_player excel_opponent player_score opponent_score switched_flag
        = (False, ws))
   \<and> (ws x = Num 11 \<longrightarrow>
        snd (write_score_to_excel pim ws excel_player excel_opponent player_score opponent_score switched_flag) x
          = Num 11)
   \<and> (ws_matches st x = Num 11 \<longrightarrow> ws_matches (phase1 e st) x = Num 11)"
proof (intro conjI impI)
  assume "index_of pim excel_player = Some i \<and> index_of pim excel_opponent = Some c_base
      \<and> (ws (i + 4, col_start + c_base * 2) = Num 11 \<or> ws (i + 4, col_start + c_base * 2 + 1) = Num 11)"
  then show "write_score_to_excel pim ws excel_player excel_opponent player_score opponent_score switched_flag
        = (False, ws)"
    unfolding write_score_to_excel_def Let_def by auto
next
  assume "ws x = Num 11"
  then show "snd (write_score_to_excel pim ws excel_player excel_opponent player_score opponent_score switched_flag) x
          = Num 11"
    by (rule write_score_keeps_11)
next
  assume "ws_matches st x = Num 11"
  then show "ws_matches (phase1 e st) x = Num 11"
    unfolding phase1_def by (rule phase1_loop_keeps_11)
qed

text \<open>
  Scenario C of the specification: the cell of (Alice, Bob) holds 11, the new score (7, 4)
  is not written.
\<close>

theorem finality_guard_witness:
  "write_score_to_excel [''Alice'', ''Bob''] (((\<lambda>_. Empty) :: sheet)((4, 4) := Num 11, (4, 5) := Num 2))
       ''Alice'' ''Bob'' 7 4 False
     = (False, ((\<lambda>_. Empty) :: sheet)((4, 4) := Num 11, (4, 5) := Num 2))"
proof -
  have h: "index_of [''Alice'', ''Bob''] ''Alice'' = Some 0 \<and> index_of [''Alice'', ''Bob''] ''Bob'' = Some 1
      \<and> ((((\<lambda>_. Empty) :: sheet)((4, 4) := Num 11, (4, 5) := Num 2)) (0 + 4, col_start + 1 * 2) = Num 11
          \<or> (((\<lambda>_. Empty) :: sheet)((4, 4) := Num 11, (4, 5) := Num 2)) (0 + 4, col_start + 1 * 2 + 1) = Num 11)"
    by (simp add: col_start_def)
  show ?thesis
    by (rule mp [OF conjunct1 [OF finality_guard] h])
qed

text \<open>
  Claim C4.  Without the switched flag and without an exact match, the resolver returns
  \<open>None\<close> and nothing is written when both sides are ambiguous or when neither observed
  name contains the player's or the opponent's name.  The code does not keep the first
  half, which its own comments promise (\<open>If unsure, return None (skip write)\<close>): the
  fallback returns (left score, right score) as soon as the player's name is contained in
  the left observed name and never looks at the right one.  Below, the player is Ann and
  the page shows Joann 3, Ann 5: \<open>ann\<close> is contained in both observed names, no exact match
  holds because the opponent is registered as \<open>Joann B\<close>, and the Phase 1 loop body writes
  Joann's 3 into Ann's cell and Ann's 5 into the opponent's.  The same happens for the
  player Al and the observed names Albert and Alfred.
\<close>

theorem ambiguous_names_are_guessed:
  "sublist (py_lower (py_strip ''Ann'')) (py_lower (py_strip ''Joann''))
   \<and> sublist (py_lower (py_strip ''Ann'')) (py_lower (py_strip ''Ann''))
   \<and> py_lower (py_strip ''Joann'') \<noteq> py_lower (py_strip ''Ann'')
   \<and> py_lower (py_strip ''Joann'') \<noteq> py_lower (py_strip ''Joann B'')
   \<and> map_scores_for_excel ''Ann'' ''Joann B'' ''Joann'' ''Ann'' 3 5 False = Some (3, 5)
   \<and> ws_matches (phase1_body
        ((demo_env (\<lambda>n m. Some ''page'') (\<lambda>page. Some (''Joann'', ''Ann'', 3, 5)))
           \<lparr>players_in_matches := [''Ann'', ''Joann B'']\<rparr>)
        demo_state (100, ''Ann'', ''Joann B'', False)) (4, 4) = Num 3
   \<and> ws_matches (phase1_body
        ((demo_env (\<lambda>n m. Some ''page'') (\<lambda>page. Some (''Joann'', ''Ann'', 3, 5)))
           \<lparr>players_in_matches := [''Ann'', ''Joann B'']\<rparr>)
        demo_state (100, ''Ann'', ''Joann B'', False)) (4, 5) = Num 5
   \<and> map_scores_for_excel ''Al'' ''Bob'' ''Albert'' ''Alfred'' 3 5 False = Some (3, 5)"
  by code_simp

text \<open>
  Claim C10.  Without the switched flag and without an exact match: when the opponent's
  name is contained in the left or the right observed name and the player's name in
  neither, the resolver returns \<open>None\<close> and the Phase 1 loop body, given that observation,
  leaves sheet Matches unchanged.  In the fallback the result is decided by the player's
  name alone: it does not depend on where the opponent's name occurs.
\<close>

theorem opponent_only_never_resolves:
  "(\<not> (py_lower (py_strip left_name) = py_lower (py_strip player)
          \<and> py_lower (py_strip right_name) = py_lower (py_strip opponent))
      \<and> \<not> (py_lower (py_strip left_name) = py_lower (py_strip opponent)
          \<and> py_lower (py_strip right_name) = py_lower (py_strip player))
      \<and> (sublist (py_lower (py_strip opponent)) (py_lower (py_strip left_name))
          \<or> sublist (py_lower (py_strip opponent)) (py_lower (py_strip right_name)))
      \<and> \<not> sublist (py_lower (py_strip player)) (py_lower (py_strip left_name))
      \<and> \<not> sublist (py_lower (py_strip player)) (py_lower (py_strip right_name)) \<longrightarrow>
      map_scores_for_excel player opponent left_name right_name left_score right_score False = None
      \<and> (page_used e st match_id = Some page
           \<and> extract_latest_score e page (players_in_matches e)
                = Some (left_name, right_name, left_score, right_score) \<longrightarrow>
          ws_matches (phase1_body e st (match_id, player, opponent, False)) = ws_matches st))
   \<and> (\<not> (py_lower (py_strip left_name) = py_lower (py_strip player)
            \<and> py_lower (py_strip right_name) = py_lower (py_strip opponent))
        \<and> \<not> (py_lower (py_strip left_name) = py_lower (py_strip opponent)
            \<and> py_lower (py_strip right_name) = py_lower (py_strip player)) \<longrightarrow>
      map_scores_for_excel player opponent left_name right_name left_score right_score False
        = (if sublist (py_lower (py_strip player)) (py_lower (py_strip left_name))
           then Some (left_score, right_score)
           else if sublist (py_lower (py_strip player)) (py_lower (py_strip right_name))
           then Some (right_score, left_score)
           else None))"
proof (intro conjI impI)
  assume h: "\<not> (py_lower (py_strip left_name) = py_lower (py_strip player)
          \<and> py_lower (py_strip right_name) = py_lower (py_strip opponent))
      \<and> \<not> (py_lower (py_strip left_name) = py_lower (py_strip opponent)
          \<and> py_lower (py_strip right_name) = py_lower (py_strip player))
      \<and> (sublist (py_lower (py_strip opponent)) (py_lower (py_strip left_name))
          \<or> sublist (py_lower (py_strip opponent)) (py_lower (py_strip right_name)))
      \<and> \<not> sublist (py_lower (py_strip player)) (py_lower (py_strip left_name))
      \<and> \<not> sublist (py_lower (py_strip player)) (py_lower (py_strip right_name))"
  show none: "map_scores_for_excel player opponent left_name right_name left_score right_score False = None"
    by (rule map_scores_player_absent) (use h in blast)+
  assume "page_used e st match_id = Some page
           \<and> extract_latest_score e page (players_in_matches e)
                = Some (left_name, right_name, left_score, right_score)"
  then show "ws_matches (phase1_body e st (match_id, player, opponent, False)) = ws_matches st"
    using none by (intro phase1_body_skip) blast+
next
  assume h: "\<not> (py_lower (py_strip left_name) = py_lower (py_strip player)
            \<and> py_lower (py_strip right_name) = py_lower (py_strip opponent))
        \<and> \<not> (py_lower (py_strip left_name) = py_lower (py_strip opponent)
            \<and> py_lower (py_strip right_name) = py_lower (py_strip player))"
  show "map_scores_for_excel player opponent left_name right_name left_score right_score False
        = (if sublist (py_lower (py_strip player)) (py_lower (py_strip left_name))
           then Some (left_score, right_score)
           else if sublist (py_lower (py_strip player)) (py_lower (py_strip right_name))
           then Some (right_score, left_score)
           else None)"
    by (rule map_scores_fallback) (use h in blast)+
qed

text \<open>
  The opponent's name \<open>bob\<close> is in the left observed name, the player's name \<open>al\<close> in
  neither: no score is resolved and the loop body writes nothing.
\<close>

theorem opponent_only_never_resolves_witness:
  "map_scores_for_excel ''Al'' ''Bob'' ''Bobby'' ''Carl'' 3 5 False = None
   \<and> ws_matches (phase1_body (demo_env (\<lambda>n m. Some ''page'') (\<lambda>page. Some (''Bobby'', ''Carl'', 3, 5)))
         demo_state (100, ''Al'', ''Bob'', False)) = ws_matches demo_state"
proof -
  have h: "\<not> (py_lower (py_strip ''Bobby'') = py_lower (py_strip ''Al'')
          \<and> py_lower (py_strip ''Carl'') = py_lower (py_strip ''Bob''))
      \<and> \<not> (py_lower (py_strip ''Bobby'') = py_lower (py_strip ''Bob'')
          \<and> py_lower (py_strip ''Carl'') = py_lower (py_strip ''Al''))
      \<and> (sublist (py_lower (py_strip ''Bob'')) (py_lower (py_strip ''Bobby''))
          \<or> sublist (py_lower (py_strip ''Bob'')) (py_lower (py_strip ''Carl'')))
      \<and> \<not> sublist (py_lower (py_strip ''Al'')) (py_lower (py_strip ''Bobby''))
      \<and> \<not> sublist (py_lower (py_strip ''Al'')) (py_lower (py_strip ''Carl''))"
    by code_simp
  have p: "page_used (demo_env (\<lambda>n m. Some ''page'') (\<lambda>page. Some (''Bobby'', ''Carl'', 3, 5))) demo_state 100
             = Some ''page''
           \<and> extract_latest_score (demo_env (\<lambda>n m. Some ''page'') (\<lambda>page. Some (''Bobby'', ''Carl'', 3, 5))) ''page''
               (players_in_matches (demo_env (\<lambda>n m. Some ''page'') (\<lambda>page. Some (''Bobby'', ''Carl'', 3, 5))))
             = Some (''Bobby'', ''Carl'', 3, 5)"
    by (simp add: page_used_def demo_env_def demo_state_def falsy_def)
  note t = mp [OF conjunct1 [OF opponent_only_never_resolves] h]
  show ?thesis
    using conjunct1 [OF t] mp [OF conjunct2 [OF t] p] by (rule conjI)
qed

section \<open>The winner of a finished match\<close>

text \<open>
  \<open>py_find\<close> is the offset of the first occurrence: the marker starts at that offset and
  at no smaller one.
\<close>

lemma py_find_found: "sublist a s \<Longrightarrow> 0 \<le> py_find a s"
  by (induction s) (auto simp: sublist_Cons_right Let_def)

lemma py_find_offset:
  "0 \<le> py_find a s \<Longrightarrow>
   prefix a (drop (nat (py_find a s)) s) \<and> (\<forall>k < nat (py_find a s). \<not> prefix a (drop k s))"
proof (induction s)
  case Nil
  then show ?case by (simp split: if_splits)
next
  case (Cons c cs)
  show ?case
  proof (cases "prefix a (c # cs)")
    case True
    then show ?thesis by simp
  next
    case False
    with Cons.prems have nn: "0 \<le> py_find a cs"
      by (simp add: Let_def split: if_splits)
    with False have eq: "py_find a (c # cs) = py_find a cs + 1"
      by (simp add: Let_def)
    have n: "nat (py_find a cs + 1) = Suc (nat (py_find a cs))"
      using nn by simp
    from Cons.IH [OF nn] have ih1: "prefix a (drop (nat (py_find a cs)) cs)"
      and ih2: "\<And>k. k < nat (py_find a cs) \<Longrightarrow> \<not> prefix a (drop k cs)" by blast+
    have "\<not> prefix a (drop k (c # cs))" if "k < Suc (nat (py_find a cs))" for k
      using that False ih2 by (cases k) simp_all
    with ih1 show ?thesis
      unfolding eq n by simp
  qed
qed

lemma detect_winner_none:
  "\<forall>l \<in> set text_lines. \<not> (sublist ''and the match'' l \<and> sublist ''Wins'' l) \<Longrightarrow>
   detect_winner player opponent_name text_lines = None"
  by (induction text_lines) simp_all

lemma detect_winner_first:
  "\<forall>l \<in> set pre. \<not> (sublist ''and the match'' l \<and> sublist ''Wins'' l) \<Longrightarrow>
   sublist ''and the match'' line \<Longrightarrow> sublist ''Wins'' line \<Longrightarrow>
   detect_winner player opponent_name (pre @ line # rest)
     = Some (if py_find ''Wins'' line < mid_threshold then player else opponent_name)"
  by (induction pre) (auto simp: Let_def)

text \<open>
  Claim C9.  A finishing line is one that contains both \<open>and the match\<close> and \<open>Wins\<close>.
  When the export has no finishing line, no winner is found and \<open>finished_by_id\<close> is left
  as it is.  Otherwise the first finishing line decides: the winner is the player when the
  offset of \<open>Wins\<close> in that line is below 24 and the opponent otherwise, whatever follows
  the line; the offset is that of the first occurrence of the marker.
\<close>

theorem winner_positional_heuristic:
  "((\<forall>l \<in> set text_lines. \<not> (sublist ''and the match'' l \<and> sublist ''Wins'' l)) \<longrightarrow>
      detect_winner player opponent_name text_lines = None
      \<and> step3_row player st match_id opponent_name text_lines = st)
   \<and> ((\<forall>l \<in> set pre. \<not> (sublist ''and the match'' l \<and> sublist ''Wins'' l))
        \<and> sublist ''and the match'' line \<and> sublist ''Wins'' line \<longrightarrow>
      detect_winner player opponent_name (pre @ line # rest)
        = Some (if py_find ''Wins'' line < 24 then player else opponent_name)
      \<and> prefix ''Wins'' (drop (nat (py_find ''Wins'' line)) line)
      \<and> (\<forall>k < nat (py_find ''Wins'' line). \<not> prefix ''Wins'' (drop k line)))"
proof (intro conjI impI)
  assume h: "\<forall>l \<in> set text_lines. \<not> (sublist ''and the match'' l \<and> sublist ''Wins'' l)"
  then show n: "detect_winner player opponent_name text_lines = None"
    by (rule detect_winner_none)
  show "step3_row player st match_id opponent_name text_lines = st"
    by (simp add: step3_row_def n)
next
  assume h: "(\<forall>l \<in> set pre. \<not> (sublist ''and the match'' l \<and> sublist ''Wins'' l))
        \<and> sublist ''and the match'' line \<and> sublist ''Wins'' line"
  then have "detect_winner player opponent_name (pre @ line # rest)
        = Some (if py_find ''Wins'' line < mid_threshold then player else opponent_name)"
    by (intro detect_winner_first) blast+
  then show "detect_winner player opponent_name (pre @ line # rest)
        = Some (if py_find ''Wins'' line < 24 then player else opponent_name)"
    by (simp only: mid_threshold_def)
  from h have "0 \<le> py_find ''Wins'' line"
    by (intro py_find_found) blast
  from py_find_offset [OF this]
  show "prefix ''Wins'' (drop (nat (py_find ''Wins'' line)) line)"
    and "\<forall>k < nat (py_find ''Wins'' line). \<not> prefix ''Wins'' (drop k line)"
    by blast+
qed

text \<open>The marker at offset 2, at offset 26, and an export without a finishing line.\<close>

theorem winner_positional_heuristic_witness:
  "detect_winner ''Alice'' ''Bob'' [''11 point match'', ''  Wins 2 points and the match'', ''                          Wins 1 point and the match'']
     = Some ''Alice''
   \<and> detect_winner ''Alice'' ''Bob'' [''11 point match'', ''                          Wins 1 point and the match'']
     = Some ''Bob''
   \<and> detect_winner ''Alice'' ''Bob'' [''11 point match'', '' 1) 63: 24/18 13/10''] = None"
proof -
  have a: "(\<forall>l \<in> set [''11 point match'']. \<not> (sublist ''and the match'' l \<and> sublist ''Wins'' l))
        \<and> sublist ''and the match'' ''  Wins 2 points and the match''
        \<and> sublist ''Wins'' ''  Wins 2 points and the match''"
    by code_simp
  have a': "py_find ''Wins'' ''  Wins 2 points and the match'' < 24"
    by code_simp
  have b: "(\<forall>l \<in> set [''11 point match'']. \<not> (sublist ''and the match'' l \<and> sublist ''Wins'' l))
        \<and> sublist ''and the match'' ''                          Wins 1 point and the match''
        \<and> sublist ''Wins'' ''                          Wins 1 point and the match''"
    by code_simp
  have b': "\<not> py_find ''Wins'' ''                          Wins 1 point and the match'' < 24"
    by code_simp
  have c: "\<forall>l \<in> set [''11 point match'', '' 1) 63: 24/18 13/10''].
             \<not> (sublist ''and the match'' l \<and> sublist ''Wins'' l)"
    by code_simp
  note ta = conjunct1 [OF mp [OF conjunct2 [OF winner_positional_heuristic
      [where pre = "[''11 point match'']" and line = "''  Wins 2 points and the match''"
        and rest = "[''                          Wins 1 point and the match'']"
        and player = "''Alice''" and opponent_name = "''Bob''"]] a]]
  note tb = conjunct1 [OF mp [OF conjunct2 [OF winner_positional_heuristic
      [where pre = "[''11 point match'']" and line = "''                          Wins 1 point and the match''"
        and rest = "[]" and player = "''Alice''" and opponent_name = "''Bob''"]] b]]
  note tc = conjunct1 [OF mp [OF conjunct1 [OF winner_positional_heuristic
      [where text_lines = "[''11 point match'', '' 1) 63: 24/18 13/10'']"
        and player = "''Alice''" and opponent_name = "''Bob''"]] c]]
  have "detect_winner ''Alice'' ''Bob'' [''11 point match'', ''  Wins 2 points and the match'', ''                          Wins 1 point and the match'']
     = Some ''Alice''"
    using ta by (simp only: a' if_True append.simps)
  moreover have "detect_winner ''Alice'' ''Bob'' [''11 point match'', ''                          Wins 1 point and the match'']
     = Some ''Bob''"
    using tb by (simp only: b' if_False append.simps)
  ultimately show ?thesis using tc by blast
qed

section \<open>The final results\<close>

text \<open>Names read from sheet Matches are stripped, and stripping a stripped name changes nothing.\<close>

lemma py_strip_idem: "py_strip (py_strip s) = py_strip s"
proof -
  define a where "a = dropWhile is_space s"
  define b where "b = rev (dropWhile is_space (rev a))"
  have split: "a = b @ rev (takeWhile is_space (rev a))"
    unfolding b_def by (metis rev_append rev_rev_ident takeWhile_dropWhile_id)
  have "dropWhile is_space b = b"
  proof (cases "b = []")
    case True
    then show ?thesis by simp
  next
    case False
    then have "hd b = hd a" using split by (metis hd_append2)
    moreover have "a \<noteq> []" using False split by auto
    then have "\<not> is_space (hd a)" unfolding a_def by (rule hd_dropWhile)
    ultimately show ?thesis using False by (cases b) auto
  qed
  moreover have "dropWhile is_space (rev b) = rev b"
    by (simp add: b_def)
  ultimately show ?thesis
    by (simp add: py_strip_def a_def [symmetric] b_def [symmetric])
qed

lemma index_of_mem: "index_of xs x = Some i \<Longrightarrow> x \<in> set xs"
  by (induction xs arbitrary: i) (auto split: if_splits)

lemma read_players_stripped:
  "index_of (read_players_in_matches col_a) name = Some i \<Longrightarrow> py_strip name = name"
  by (auto simp: read_players_in_matches_def py_strip_idem dest!: index_of_mem)

lemma winner_lower_eq:
  assumes "py_lower winner_name = py_lower name" and "py_strip name = name"
  shows "py_lower (py_strip winner_name) = py_lower name"
proof -
  have "py_lower (py_strip winner_name) = py_lower (py_strip name)"
    using assms(1) by (rule py_lower_strip_cong)
  then show ?thesis by (simp only: assms(2))
qed

lemma phase2_body_eval:
  "map_of (match_id_to_excel st) match_id = Some (excel_player, excel_opponent, switched_flag) \<Longrightarrow>
   index_of (players_in_matches e) excel_player = Some i \<Longrightarrow>
   index_of (players_in_matches e) excel_opponent = Some c_base \<Longrightarrow>
   phase2_body e st (match_id, winner_name) =
     (if py_lower (py_strip winner_name) = py_lower excel_player
      then st\<lparr>ws_matches := (ws_matches st)
                ((i + 4, if switched_flag then col_start + c_base * 2 + 1 else col_start + c_base * 2) := Num 11)\<rparr>
      else if py_lower (py_strip winner_name) = py_lower excel_opponent
      then st\<lparr>ws_matches := (ws_matches st)
                ((i + 4, if switched_flag then col_start + c_base * 2 else col_start + c_base * 2 + 1) := Num 11)\<rparr>
      else st)"
  by (simp add: phase2_body_def Let_def)


text \<open>
  Claim C7.  Let the finished match be registered as (player, opponent, switched) and let
  both names be found in the list read from sheet Matches; the left column of the pair is
  \<open>col_start + 2 * c_base\<close>, the right one the next.  When the winner's name equals the
  player's up to case, 11 is written to the right column if switched and to the left
  column otherwise.  When it equals the opponent's up to case, 11 is written to the left
  column if switched and to the right column otherwise.  Player and opponent are two
  participants, so a winner who is the opponent is not also the player: the statement for
  the opponent carries that as its hypothesis.  Nothing else changes, and what the cells
  held before plays no part.
\<close>

theorem write_final_orientation:
  "map_of (match_id_to_excel st) match_id = Some (excel_player, excel_opponent, switched_flag)
   \<and> players_in_matches e = read_players_in_matches col_a
   \<and> index_of (players_in_matches e) excel_player = Some i
   \<and> index_of (players_in_matches e) excel_opponent = Some c_base \<longrightarrow>
     (switched_flag \<and> py_lower winner_name = py_lower excel_player \<longrightarrow>
        phase2_body e st (match_id, winner_name)
          = st\<lparr>ws_matches := (ws_matches st)((i + 4, col_start + c_base * 2 + 1) := Num 11)\<rparr>)
   \<and> (switched_flag \<and> py_lower winner_name = py_lower excel_opponent
          \<and> py_lower winner_name \<noteq> py_lower excel_player \<longrightarrow>
        phase2_body e st (match_id, winner_name)
          = st\<lparr>ws_matches := (ws_matches st)((i + 4, col_start + c_base * 2) := Num 11)\<rparr>)
   \<and> (\<not> switched_flag \<and> py_lower winner_name = py_lower excel_player \<longrightarrow>
        phase2_body e st (match_id, winner_name)
          = st\<lparr>ws_matches := (ws_matches st)((i + 4, col_start + c_base * 2) := Num 11)\<rparr>)
   \<and> (\<not> switched_flag \<and> py_lower winner_name = py_lower excel_opponent
          \<and> py_lower winner_name \<noteq> py_lower excel_player \<longrightarrow>
        phase2_body e st (match_id, winner_name)
          = st\<lparr>ws_matches := (ws_matches st)((i + 4, col_start + c_base * 2 + 1) := Num 11)\<rparr>)"
proof (rule impI)
  assume h: "map_of (match_id_to_excel st) match_id = Some (excel_player, excel_opponent, switched_flag)
   \<and> players_in_matches e = read_players_in_matches col_a
   \<and> index_of (players_in_matches e) excel_player = Some i
   \<and> index_of (players_in_matches e) excel_opponent = Some c_base"
  then have ip: "index_of (players_in_matches e) excel_player = Some i"
    and io: "index_of (players_in_matches e) excel_opponent = Some c_base"
    and rd: "players_in_matches e = read_players_in_matches col_a"
    and reg: "map_of (match_id_to_excel st) match_id = Some (excel_player, excel_opponent, switched_flag)"
    by blast+
  have sp: "py_strip excel_player = excel_player"
    using ip unfolding rd by (rule read_players_stripped)
  have so: "py_strip excel_opponent = excel_opponent"
    using io unfolding rd by (rule read_players_stripped)
  note ev = phase2_body_eval [OF reg ip io, of winner_name]
  have player_case:
    "phase2_body e st (match_id, winner_name)
       = st\<lparr>ws_matches := (ws_matches st)
              ((i + 4, if switched_flag then col_start + c_base * 2 + 1 else col_start + c_base * 2) := Num 11)\<rparr>"
    if "py_lower winner_name = py_lower excel_player"
  proof -
    have "py_lower (py_strip winner_name) = py_lower excel_player"
      using that sp by (rule winner_lower_eq)
    then show ?thesis unfolding ev by (rule if_P)
  qed
  have opponent_case:
    "phase2_body e st (match_id, winner_name)
       = st\<lparr>ws_matches := (ws_matches st)
              ((i + 4, if switched_flag then col_start + c_base * 2 else col_start + c_base * 2 + 1) := Num 11)\<rparr>"
    if w: "py_lower winner_name = py_lower excel_opponent"
      and n: "py_lower winner_name \<noteq> py_lower excel_player"
  proof -
    have a: "py_lower (py_strip winner_name) = py_lower excel_opponent"
      using w so by (rule winner_lower_eq)
    have b: "py_lower (py_strip winner_name) \<noteq> py_lower excel_player"
      using n unfolding a w .
    show ?thesis
      unfolding ev if_not_P [OF b] using a by (rule if_P)
  qed
  show "(switched_flag \<and> py_lower winner_name = py_lower excel_player \<longrightarrow>
        phase2_body e st (match_id, winner_name)
          = st\<lparr>ws_matches := (ws_matches st)((i + 4, col_start + c_base * 2 + 1) := Num 11)\<rparr>)
   \<and> (switched_flag \<and> py_lower winner_name = py_lower excel_opponent
          \<and> py_lower winner_name \<noteq> py_lower excel_player \<longrightarrow>
        phase2_body e st (match_id, winner_name)
          = st\<lparr>ws_matches := (ws_matches st)((i + 4, col_start + c_base * 2) := Num 11)\<rparr>)
   \<and> (\<not> switched_flag \<and> py_lower winner_name = py_lower excel_player \<longrightarrow>
        phase2_body e st (match_id, winner_name)
          = st\<lparr>ws_matches := (ws_matches st)((i + 4, col_start + c_base * 2) := Num 11)\<rparr>)
   \<and> (\<not> switched_flag \<and> py_lower winner_name = py_lower excel_opponent
          \<and> py_lower winner_name \<noteq> py_lower excel_player \<longrightarrow>
        phase2_body e st (match_id, winner_name)
          = st\<lparr>ws_matches := (ws_matches st)((i + 4, col_start + c_base * 2 + 1) := Num 11)\<rparr>)"
  proof (intro conjI impI)
    assume c: "switched_flag \<and> py_lower winner_name = py_lower excel_player"
    from player_case [OF conjunct2 [OF c]] conjunct1 [OF c]
    show "phase2_body e st (match_id, winner_name)
          = st\<lparr>ws_matches := (ws_matches st)((i + 4, col_start + c_base * 2 + 1) := Num 11)\<rparr>"
      by (simp only: if_True)
  next
    assume c: "switched_flag \<and> py_lower winner_name = py_lower excel_opponent
          \<and> py_lower winner_name \<noteq> py_lower excel_player"
    from opponent_case [OF conjunct1 [OF conjunct2 [OF c]] conjunct2 [OF conjunct2 [OF c]]] conjunct1 [OF c]
    show "phase2_body e st (match_id, winner_name)
          = st\<lparr>ws_matches := (ws_matches st)((i + 4, col_start + c_base * 2) := Num 11)\<rparr>"
      by (simp only: if_True)
  next
    assume c: "\<not> switched_flag \<and> py_lower winner_name = py_lower excel_player"
    from player_case [OF conjunct2 [OF c]] conjunct1 [OF c]
    show "phase2_body e st (match_id, winner_name)
          = st\<lparr>ws_matches := (ws_matches st)((i + 4, col_start + c_base * 2) := Num 11)\<rparr>"
      by (simp only: if_False)
  next
    assume c: "\<not> switched_flag \<and> py_lower winner_name = py_lower excel_opponent
          \<and> py_lower winner_name \<noteq> py_lower excel_player"
    from opponent_case [OF conjunct1 [OF conjunct2 [OF c]] conjunct2 [OF conjunct2 [OF c]]] conjunct1 [OF c]
    show "phase2_body e st (match_id, winner_name)
          = st\<lparr>ws_matches := (ws_matches st)((i + 4, col_start + c_base * 2 + 1) := Num 11)\<rparr>"
      by (simp only: if_False)
  qed
qed

text \<open>
  Scenario D of the specification: the record is (Alice, Bob, switched), the winner is
  Bob, and 11 goes to the left cell of the pair.
\<close>

theorem write_final_orientation_witness:
  "phase2_body (demo_env (\<lambda>n m. None) (\<lambda>page. None))
      (demo_state\<lparr>match_id_to_excel := [(100, ''Alice'', ''Bob'', True)]\<rparr>) (100, ''Bob'')
     = (demo_state\<lparr>match_id_to_excel := [(100, ''Alice'', ''Bob'', True)]\<rparr>)
         \<lparr>ws_matches := (ws_matches (demo_state\<lparr>match_id_to_excel := [(100, ''Alice'', ''Bob'', True)]\<rparr>))
             ((0 + 4, col_start + 1 * 2) := Num 11)\<rparr>"
proof -
  have h: "map_of (match_id_to_excel (demo_state\<lparr>match_id_to_excel := [(100, ''Alice'', ''Bob'', True)]\<rparr>)) 100
             = Some (''Alice'', ''Bob'', True)
   \<and> players_in_matches (demo_env (\<lambda>n m. None) (\<lambda>page. None))
       = read_players_in_matches [''Alice'', '' Bob '', [], ''Carl'']
   \<and> index_of (players_in_matches (demo_env (\<lambda>n m. None) (\<lambda>page. None))) ''Alice'' = Some 0
   \<and> index_of (players_in_matches (demo_env (\<lambda>n m. None) (\<lambda>page. None))) ''Bob'' = Some 1"
    by (simp add: demo_env_def demo_state_def read_players_in_matches_def py_strip_def is_space_def)
  have c: "True \<and> py_lower ''Bob'' = py_lower ''Bob'' \<and> py_lower ''Bob'' \<noteq> py_lower ''Alice''"
    by code_simp
  show ?thesis
    by (rule mp [OF conjunct1 [OF conjunct2 [OF mp [OF write_final_orientation h]]] c])
qed

section \<open>The registry\<close>

lemma dict_set_lookup: "map_of (dict_set d k v) k' = (if k' = k then Some v else map_of d k')"
  by (induction d) auto

lemma dict_set_keys:
  "map fst (dict_set d k v) = (if k \<in> set (map fst d) then map fst d else map fst d @ [k])"
  by (induction d) force+

lemma dict_set_distinct: "distinct (map fst d) \<Longrightarrow> distinct (map fst (dict_set d k v))"
  by (simp add: dict_set_keys)

lemma step2_entry_skip:
  "matches st (player, opponent_name) \<noteq> None \<or> matches_by_hand st (player, opponent_name) \<noteq> None \<Longrightarrow>
   step2_entry e player st (opponent_name, opponent_id, mid_int) = st"
  by (simp add: step2_entry_def)

lemma step2_entry_registry:
  "matches st (player, opponent_name) = None \<Longrightarrow> matches_by_hand st (player, opponent_name) = None \<Longrightarrow>
   match_id_to_excel (step2_entry e player st (opponent_name, opponent_id, mid_int))
     = dict_set (match_id_to_excel st) mid_int
         (player, opponent_name,
          case map_of (match_id_to_excel st) mid_int of None \<Rightarrow> False | Some (_, _, flag) \<Rightarrow> flag)"
  by (simp add: step2_entry_def Let_def split: option.splits)

text \<open>
  Claim C5.  Each match id keeps the one record it was first registered with; no later
  pass gives it another (player, opponent) pair.  The code does not keep this: for a
  discovered entry whose key is new, Step 2 looks the match id up, keeps only the switched
  flag of the earlier record and assigns (player, opponent name, flag) to the id
  (\<open>step2_entry_registry\<close>).  Below, sheet Links holds match 100 in the cell of (Alice,
  Bob) and the site lists the match on Bob's page.  With the page showing Alice 3, Bob 5,
  Step 1 registers (Alice, Bob) and Step 2 replaces it by (Bob, Alice), so that Phase 1
  leaves the pair of (Alice, Bob) empty.  With the page showing Bob 3, Alice 5, Step 1
  registers (Alice, Bob) as switched, Step 2 makes it (Bob, Alice) with the flag kept, and
  Phase 1 writes 5 for Bob and 3 for Alice, the reverse of the page.
\<close>

theorem discovery_replaces_record:
  "map_of (match_id_to_excel
       (step1 (demo_env (\<lambda>n m. Some ''page'') (\<lambda>page. Some (''Alice'', ''Bob'', 3, 5))) demo_state)) 100
     = Some (''Alice'', ''Bob'', False)
   \<and> map_of (match_id_to_excel
       (step2 (demo_env (\<lambda>n m. Some ''page'') (\<lambda>page. Some (''Alice'', ''Bob'', 3, 5)))
          (step1 (demo_env (\<lambda>n m. Some ''page'') (\<lambda>page. Some (''Alice'', ''Bob'', 3, 5))) demo_state))) 100
     = Some (''Bob'', ''Alice'', False)
   \<and> ws_matches
       (phase1 (demo_env (\<lambda>n m. Some ''page'') (\<lambda>page. Some (''Alice'', ''Bob'', 3, 5)))
          (step2 (demo_env (\<lambda>n m. Some ''page'') (\<lambda>page. Some (''Alice'', ''Bob'', 3, 5)))
             (step1 (demo_env (\<lambda>n m. Some ''page'') (\<lambda>page. Some (''Alice'', ''Bob'', 3, 5))) demo_state)))
       (4, 4) = Empty
   \<and> ws_matches
       (phase1 (demo_env (\<lambda>n m. Some ''page'') (\<lambda>page. Some (''Alice'', ''Bob'', 3, 5)))
          (step2 (demo_env (\<lambda>n m. Some ''page'') (\<lambda>page. Some (''Alice'', ''Bob'', 3, 5)))
             (step1 (demo_env (\<lambda>n m. Some ''page'') (\<lambda>page. Some (''Alice'', ''Bob'', 3, 5))) demo_state)))
       (4, 5) = Empty
   \<and> map_of (match_id_to_excel
       (step1 (demo_env (\<lambda>n m. Some ''page'') (\<lambda>page. Some (''Bob'', ''Alice'', 3, 5))) demo_state)) 100
     = Some (''Alice'', ''Bob'', True)
   \<and> map_of (match_id_to_excel
       (step2 (demo_env (\<lambda>n m. Some ''page'') (\<lambda>page. Some (''Bob'', ''Alice'', 3, 5)))
          (step1 (demo_env (\<lambda>n m. Some ''page'') (\<lambda>page. Some (''Bob'', ''Alice'', 3, 5))) demo_state))) 100
     = Some (''Bob'', ''Alice'', True)
   \<and> ws_matches
       (phase1 (demo_env (\<lambda>n m. Some ''page'') (\<lambda>page. Some (''Bob'', ''Alice'', 3, 5)))
          (step2 (demo_env (\<lambda>n m. Some ''page'') (\<lambda>page. Some (''Bob'', ''Alice'', 3, 5)))
             (step1 (demo_env (\<lambda>n m. Some ''page'') (\<lambda>page. Some (''Bob'', ''Alice'', 3, 5))) demo_state)))
       (5, 2) = Num 5
   \<and> ws_matches
       (phase1 (demo_env (\<lambda>n m. Some ''page'') (\<lambda>page. Some (''Bob'', ''Alice'', 3, 5)))
          (step2 (demo_env (\<lambda>n m. Some ''page'') (\<lambda>page. Some (''Bob'', ''Alice'', 3, 5)))
             (step1 (demo_env (\<lambda>n m. Some ''page'') (\<lambda>page. Some (''Bob'', ''Alice'', 3, 5))) demo_state)))
       (5, 3) = Num 3"
  by code_simp

section \<open>The page cache\<close>

lemma register_plain_cache:
  "requests (register_plain st player_name opp match_id) = requests st"
  "html_cache (register_plain st player_name opp match_id) = html_cache st"
  by (simp_all add: register_plain_def)

lemma step1_cell_cached:
  assumes "html_cache st match_id \<noteq> None"
  shows "requests (step1_cell e st player_name opp match_id) = requests st
   \<and> html_cache (step1_cell e st player_name opp match_id) = html_cache st"
proof -
  from assms obtain h where h: "html_cache st match_id = Some h" by blast
  show ?thesis
    by (simp add: step1_cell_def h register_plain_cache Let_def split: option.split prod.split)
qed

text \<open>
  Claim C6.  Each match id is requested at most once in a run and a cache entry, also the
  marker of a failed request, is never replaced.  The code does not keep this: Step 1
  requests a page only for an id that is not a key of the cache
  (\<open>step1_cell_cached\<close>), but Phase 1 requests it again whenever the cached value is falsy.
  In the run below the first request for match 100 fails; Step 1 stores the marker, Phase 1
  asks the site a second time and replaces the marker by the page it receives.
\<close>

theorem failed_fetch_is_repeated:
  "html_cache (step1 (demo_env (\<lambda>n m. if n = 0 then None else Some ''page'') (\<lambda>page. Some (''Alice'', ''Bob'', 3, 5)))
       demo_state) 100 = Some None
   \<and> requests (step1 (demo_env (\<lambda>n m. if n = 0 then None else Some ''page'') (\<lambda>page. Some (''Alice'', ''Bob'', 3, 5)))
       demo_state) = [100]
   \<and> requests (phase1 (demo_env (\<lambda>n m. if n = 0 then None else Some ''page'') (\<lambda>page. Some (''Alice'', ''Bob'', 3, 5)))
       (step2 (demo_env (\<lambda>n m. if n = 0 then None else Some ''page'') (\<lambda>page. Some (''Alice'', ''Bob'', 3, 5)))
          (step1 (demo_env (\<lambda>n m. if n = 0 then None else Some ''page'') (\<lambda>page. Some (''Alice'', ''Bob'', 3, 5)))
             demo_state))) = [100, 100]
   \<and> html_cache (phase1 (demo_env (\<lambda>n m. if n = 0 then None else Some ''page'') (\<lambda>page. Some (''Alice'', ''Bob'', 3, 5)))
       (step2 (demo_env (\<lambda>n m. if n = 0 then None else Some ''page'') (\<lambda>page. Some (''Alice'', ''Bob'', 3, 5)))
          (step1 (demo_env (\<lambda>n m. if n = 0 then None else Some ''page'') (\<lambda>page. Some (''Alice'', ''Bob'', 3, 5)))
             demo_state))) 100 = Some (Some ''page'')"
  by code_simp

section \<open>Idempotence of the intermediate-score phase\<close>

text \<open>
  What a list of attempted writes does to the pair of one target: once the pair holds an
  11 nothing changes it, and running the list a second time gives the pair the first run
  left.
\<close>

lemma blocked_pair_step: "blocked v \<Longrightarrow> pair_step t wo v = v"
  by (simp add: pair_step_def split: option.split prod.split)

lemma blocked_fold: "blocked v \<Longrightarrow> fold (pair_step t) ws v = v"
  by (induction ws) (simp_all add: blocked_pair_step)

lemma unblocked_fold:
  "\<not> blocked (fold (pair_step t) ws v) \<Longrightarrow> \<not> blocked v' \<Longrightarrow> \<not> blocked (fold (pair_step t) ws v')"
proof (induction ws arbitrary: v v')
  case Nil
  then show ?case by simp
next
  case (Cons wo ws)
  have v: "\<not> blocked v"
    using Cons.prems(1) blocked_fold [of v t "wo # ws"] by auto
  have "\<not> blocked (pair_step t wo v')"
  proof (cases "pair_step t wo v' = v'")
    case True
    then show ?thesis using Cons.prems(2) by simp
  next
    case False
    have "pair_step t wo v' = pair_step t wo v"
      using False v Cons.prems(2) by (auto simp: pair_step_def split: option.splits prod.splits if_splits)
    moreover have "\<not> blocked (pair_step t wo v)"
      using Cons.prems(1) blocked_fold [of "pair_step t wo v" t ws] by auto
    ultimately show ?thesis by simp
  qed
  with Cons.IH [of "pair_step t wo v" "pair_step t wo v'"] Cons.prems(1)
  show ?case by simp
qed

lemma pair_fold_idem:
  "fold (pair_step t) ws (fold (pair_step t) ws v) = fold (pair_step t) ws v"
proof (induction ws arbitrary: v rule: rev_induct)
  case Nil
  then show ?case by simp
next
  case (snoc wo ws)
  define u where "u = fold (pair_step t) ws v"
  have ih: "fold (pair_step t) ws u = u"
    unfolding u_def by (rule snoc.IH)
  have "pair_step t wo (fold (pair_step t) ws (pair_step t wo u)) = pair_step t wo u"
  proof (cases "pair_step t wo u = u")
    case True
    then show ?thesis by (simp add: ih)
  next
    case False
    define c where "c = pair_step t wo u"
    have u: "\<not> blocked u"
      using False blocked_pair_step by blast
    have hit: "pair_step t wo x = c" if "\<not> blocked x" for x
      using that False u unfolding c_def
      by (auto simp: pair_step_def split: option.splits prod.splits if_splits)
    show ?thesis
    proof (cases "blocked c")
      case True
      then show ?thesis
        unfolding c_def [symmetric] by (simp add: blocked_fold blocked_pair_step)
    next
      case False
      have "\<not> blocked (fold (pair_step t) ws c)"
        using unblocked_fold [of t ws v c] u False unfolding u_def by simp
      then show ?thesis
        unfolding c_def [symmetric] by (simp add: hit)
    qed
  qed
  then show ?case
    by (simp add: u_def)
qed

text \<open>
  The pairs of different targets share no cell, so a sheet can be followed pair by pair.
\<close>

lemma guarded_write_other:
  "x \<noteq> (i + 4, col_start + c_base * 2) \<Longrightarrow> x \<noteq> (i + 4, col_start + c_base * 2 + 1) \<Longrightarrow>
   guarded_write (i, c_base, a, b) ws x = ws x"
  by (simp add: guarded_write_def)

lemma pair_at_guarded_write:
  "pair_at (guarded_write (i, c_base, a, b) ws) t
     = (if (i, c_base) = t \<and> \<not> blocked (pair_at ws t) then (Num a, Num b) else pair_at ws t)"
proof (cases "(i, c_base) = t")
  case True
  then show ?thesis
    by (auto simp: guarded_write_def pair_at_def blocked_def)
next
  case False
  then have d: "i \<noteq> fst t \<or> c_base \<noteq> snd t" by auto
  have l: "guarded_write (i, c_base, a, b) ws (fst t + 4, col_start + snd t * 2)
             = ws (fst t + 4, col_start + snd t * 2)"
  proof (rule guarded_write_other)
    show "(fst t + 4, col_start + snd t * 2) \<noteq> (i + 4, col_start + c_base * 2)"
      using d by auto
    show "(fst t + 4, col_start + snd t * 2) \<noteq> (i + 4, col_start + c_base * 2 + 1)"
      by (simp, presburger)
  qed
  have r: "guarded_write (i, c_base, a, b) ws (fst t + 4, col_start + snd t * 2 + 1)
             = ws (fst t + 4, col_start + snd t * 2 + 1)"
  proof (rule guarded_write_other)
    show "(fst t + 4, col_start + snd t * 2 + 1) \<noteq> (i + 4, col_start + c_base * 2)"
      by (simp, presburger)
    show "(fst t + 4, col_start + snd t * 2 + 1) \<noteq> (i + 4, col_start + c_base * 2 + 1)"
      using d by auto
  qed
  have "pair_at (guarded_write (i, c_base, a, b) ws) t = pair_at ws t"
    unfolding pair_at_def l r ..
  then show ?thesis
    using False by simp
qed

lemma pair_at_apply_planned:
  "pair_at (apply_planned wo ws) t = pair_step t wo (pair_at ws t)"
  by (cases wo) (auto simp: apply_planned_def pair_step_def pair_at_guarded_write)

lemma pair_at_fold:
  "pair_at (fold apply_planned plan ws) t = fold (pair_step t) plan (pair_at ws t)"
  by (induction plan arbitrary: ws) (simp_all add: pair_at_apply_planned)

lemma guarded_write_elsewhere:
  "(\<forall>t. x \<noteq> (fst t + 4, col_start + snd t * 2) \<and> x \<noteq> (fst t + 4, col_start + snd t * 2 + 1)) \<Longrightarrow>
   apply_planned wo ws x = ws x"
  by (cases wo) (auto simp: apply_planned_def guarded_write_def)

lemma fold_elsewhere:
  "(\<forall>t. x \<noteq> (fst t + 4, col_start + snd t * 2) \<and> x \<noteq> (fst t + 4, col_start + snd t * 2 + 1)) \<Longrightarrow>
   fold apply_planned plan ws x = ws x"
  by (induction plan arbitrary: ws) (simp_all add: guarded_write_elsewhere)

lemma planned_fold_idem:
  "fold apply_planned plan (fold apply_planned plan ws) = fold apply_planned plan ws"
proof (rule ext)
  fix x
  show "fold apply_planned plan (fold apply_planned plan ws) x = fold apply_planned plan ws x"
  proof (cases "\<forall>t. x \<noteq> (fst t + 4, col_start + snd t * 2) \<and> x \<noteq> (fst t + 4, col_start + snd t * 2 + 1)")
    case True
    then show ?thesis by (simp add: fold_elsewhere)
  next
    case False
    then obtain t where x: "x = (fst t + 4, col_start + snd t * 2) \<or> x = (fst t + 4, col_start + snd t * 2 + 1)"
      by blast
    have "pair_at (fold apply_planned plan (fold apply_planned plan ws)) t
            = pair_at (fold apply_planned plan ws) t"
      by (simp add: pair_at_fold pair_fold_idem)
    then show ?thesis
      using x by (auto simp: pair_at_def)
  qed
qed

text \<open>
  The loop body seen from sheet Matches: it applies the planned write for the page it
  works on.  When the site answers every request for a match id in the same way, the page
  the loop works on for an id does not depend on what the loop has cached so far.
\<close>

lemma write_score_as_guarded:
  "snd (write_score_to_excel pim ws excel_player excel_opponent a b switched_flag)
     = (case index_of pim excel_player of
          None \<Rightarrow> ws
        | Some i \<Rightarrow>
            (case index_of pim excel_opponent of
               None \<Rightarrow> ws
             | Some c_base \<Rightarrow> guarded_write (i, c_base, a, b) ws))"
  by (simp add: write_score_to_excel_def guarded_write_def Let_def split: option.split)

lemma phase1_body_sheet:
  "ws_matches (phase1_body e st (match_id, entry))
     = apply_planned (planned_write e (page_used e st match_id) entry) (ws_matches st)"
  by (cases entry)
    (simp add: phase1_body_ws planned_write_def apply_planned_def write_score_as_guarded
       split: option.split prod.split)

lemma phase1_body_registry:
  "match_id_to_excel (phase1_body e st item) = match_id_to_excel st"
  unfolding phase1_body_def fetch_list_html_def Let_def
  by (simp split: option.split prod.split)

lemma phase1_body_cache:
  "html_cache (phase1_body e st (match_id, entry))
     = (if falsy (case html_cache st match_id of None \<Rightarrow> None | Some h \<Rightarrow> h)
        then (html_cache st)(match_id \<mapsto> dailygammon e (length (requests st)) match_id)
        else html_cache st)"
  unfolding phase1_body_def fetch_list_html_def Let_def
  by (simp split: option.split prod.split)

lemma page_used_steady:
  assumes "\<forall>n m. dailygammon e n m = dailygammon e 0 m"
  shows "page_used e st m
     = (if falsy (case html_cache st m of None \<Rightarrow> None | Some h \<Rightarrow> h)
        then dailygammon e 0 m
        else (case html_cache st m of None \<Rightarrow> None | Some h \<Rightarrow> h))"
  using assms by (simp add: page_used_def Let_def)

lemma page_used_phase1_body:
  assumes "\<forall>n m. dailygammon e n m = dailygammon e 0 m"
  shows "page_used e (phase1_body e st item) m = page_used e st m"
proof -
  obtain match_id entry where item: "item = (match_id, entry)" by (cases item)
  have s: "dailygammon e (length (requests st)) match_id = dailygammon e 0 match_id"
    using assms by blast
  show ?thesis
    unfolding page_used_steady [OF assms] item phase1_body_cache s
    by (auto simp: falsy_def)
qed

lemma page_used_sheet: "page_used e (st\<lparr>ws_matches := w\<rparr>) = page_used e st"
  by (rule ext) (simp add: page_used_def Let_def)

lemma phase1_loop_registry:
  "match_id_to_excel (fold (\<lambda>item s. phase1_body e s item) items st) = match_id_to_excel st"
  by (induction items arbitrary: st) (simp_all add: phase1_body_registry)

lemma phase1_loop_sheet:
  assumes "\<forall>n m. dailygammon e n m = dailygammon e 0 m"
  shows "ws_matches (fold (\<lambda>item s. phase1_body e s item) items st)
           = fold apply_planned
               (map (\<lambda>item. planned_write e (page_used e st (fst item)) (snd item)) items) (ws_matches st)
         \<and> page_used e (fold (\<lambda>item s. phase1_body e s item) items st) = page_used e st"
proof (induction items arbitrary: st)
  case Nil
  then show ?case by simp
next
  case (Cons item items)
  have p: "page_used e (phase1_body e st item) = page_used e st"
    by (rule ext) (rule page_used_phase1_body [OF assms])
  have w: "ws_matches (phase1_body e st item)
             = apply_planned (planned_write e (page_used e st (fst item)) (snd item)) (ws_matches st)"
    using phase1_body_sheet [of e st "fst item" "snd item"] by simp
  from Cons.IH [of "phase1_body e st item"] show ?case
    by (simp add: p w)
qed

text \<open>
  Claim C8.  Let the site answer every request for a match id in the same way (the
  external data are fixed; the score extractor is a function of the page).  Then for every
  state, whatever sheet Matches holds: running the Phase 1 loop again on the state the
  first run left gives the same sheet Matches, and so does running it from the first
  run's starting state with sheet Matches replaced by the sheet the first run left.
\<close>

theorem intermediate_phase_idempotent:
  "(\<forall>n m. dailygammon e n m = dailygammon e 0 m) \<longrightarrow>
     ws_matches (phase1 e (phase1 e st)) = ws_matches (phase1 e st)
     \<and> ws_matches (phase1 e (st\<lparr>ws_matches := ws_matches (phase1 e st)\<rparr>)) = ws_matches (phase1 e st)"
proof (intro impI conjI)
  assume steady: "\<forall>n m. dailygammon e n m = dailygammon e 0 m"
  define plan where
    "plan = map (\<lambda>item. planned_write e (page_used e st (fst item)) (snd item)) (match_id_to_excel st)"
  have first: "ws_matches (phase1 e st) = fold apply_planned plan (ws_matches st)"
    and page: "page_used e (phase1 e st) = page_used e st"
    using phase1_loop_sheet [OF steady, of "match_id_to_excel st" st]
    by (simp_all add: phase1_def plan_def)
  have reg: "match_id_to_excel (phase1 e st) = match_id_to_excel st"
    by (simp add: phase1_def phase1_loop_registry)
  have "ws_matches (phase1 e (phase1 e st)) = fold apply_planned plan (ws_matches (phase1 e st))"
    using phase1_loop_sheet [OF steady, of "match_id_to_excel st" "phase1 e st"]
    unfolding phase1_def [of e "phase1 e st"] reg page plan_def by blast
  then show "ws_matches (phase1 e (phase1 e st)) = ws_matches (phase1 e st)"
    by (simp add: first planned_fold_idem)
  have "ws_matches (phase1 e (st\<lparr>ws_matches := ws_matches (phase1 e st)\<rparr>))
          = fold apply_planned plan (ws_matches (phase1 e st))"
    using phase1_loop_sheet [OF steady, of "match_id_to_excel st" "st\<lparr>ws_matches := ws_matches (phase1 e st)\<rparr>"]
    by (simp add: phase1_def page_used_sheet plan_def)
  then show "ws_matches (phase1 e (st\<lparr>ws_matches := ws_matches (phase1 e st)\<rparr>)) = ws_matches (phase1 e st)"
    by (simp add: first planned_fold_idem)
qed

text \<open>
  The small league with a site that always answers: the first run writes 3 and 5 into the
  pair of (Alice, Bob), the second run leaves the sheet as it is.
\<close>

theorem intermediate_phase_idempotent_witness:
  "ws_matches (phase1 (demo_env (\<lambda>n m. Some ''page'') (\<lambda>page. Some (''Alice'', ''Bob'', 3, 5)))
       (phase1 (demo_env (\<lambda>n m. Some ''page'') (\<lambda>page. Some (''Alice'', ''Bob'', 3, 5)))
          (step1 (demo_env (\<lambda>n m. Some ''page'') (\<lambda>page. Some (''Alice'', ''Bob'', 3, 5))) demo_state)))
     = ws_matches (phase1 (demo_env (\<lambda>n m. Some ''page'') (\<lambda>page. Some (''Alice'', ''Bob'', 3, 5)))
          (step1 (demo_env (\<lambda>n m. Some ''page'') (\<lambda>page. Some (''Alice'', ''Bob'', 3, 5))) demo_state))
   \<and> ws_matches (phase1 (demo_env (\<lambda>n m. Some ''page'') (\<lambda>page. Some (''Alice'', ''Bob'', 3, 5)))
          (step1 (demo_env (\<lambda>n m. Some ''page'') (\<lambda>page. Some (''Alice'', ''Bob'', 3, 5))) demo_state)) (4, 4)
       = Num 3
   \<and> ws_matches (phase1 (demo_env (\<lambda>n m. Some ''page'') (\<lambda>page. Some (''Alice'', ''Bob'', 3, 5)))
          (step1 (demo_env (\<lambda>n m. Some ''page'') (\<lambda>page. Some (''Alice'', ''Bob'', 3, 5))) demo_state)) (4, 5)
       = Num 5"
proof -
  have steady: "\<forall>n m. dailygammon (demo_env (\<lambda>n m. Some ''page'') (\<lambda>page. Some (''Alice'', ''Bob'', 3, 5))) n m
            = dailygammon (demo_env (\<lambda>n m. Some ''page'') (\<lambda>page. Some (''Alice'', ''Bob'', 3, 5))) 0 m"
    by (simp add: demo_env_def)
  have cells: "ws_matches (phase1 (demo_env (\<lambda>n m. Some ''page'') (\<lambda>page. Some (''Alice'', ''Bob'', 3, 5)))
          (step1 (demo_env (\<lambda>n m. Some ''page'') (\<lambda>page. Some (''Alice'', ''Bob'', 3, 5))) demo_state)) (4, 4)
       = Num 3
   \<and> ws_matches (phase1 (demo_env (\<lambda>n m. Some ''page'') (\<lambda>page. Some (''Alice'', ''Bob'', 3, 5)))
          (step1 (demo_env (\<lambda>n m. Some ''page'') (\<lambda>page. Some (''Alice'', ''Bob'', 3, 5))) demo_state)) (4, 5)
       = Num 5"
    by code_simp
  from conjunct1 [OF mp [OF intermediate_phase_idempotent steady]] cells
  show ?thesis by (rule conjI)
qed

end
